theory Spec2Isabelle
  imports Main "HOL-Library.Word" "HOL-Library.Sublist"
begin

section \<open>The docs provider of OpenCtx (provider/docs/src/provider/provider.ts)\<close>

subsection \<open>JavaScript strings\<close>

text \<open>
  A JavaScript string is a sequence of UTF-16 code units: \<open>length\<close>, indexing and
  \<open>slice\<close> all count code units. The em dash U+2014 is one code unit.
\<close>

type_synonym jsstring = "16 word list"

definition ascii :: "string \<Rightarrow> jsstring" where
  \<comment> \<open>An ASCII literal of the source as code units.\<close>
  "ascii s = map (\<lambda>c. of_nat (of_char c)) s"

definition charAt :: "jsstring \<Rightarrow> int \<Rightarrow> 16 word option" where
  \<comment> \<open>\<open>text[k]\<close>: \<open>undefined\<close> (here \<open>None\<close>) outside the string.\<close>
  "charAt s k = (if 0 \<le> k \<and> k < int (length s) then Some (s ! nat k) else None)"

definition prepend :: "16 word option \<Rightarrow> jsstring \<Rightarrow> jsstring" where
  \<comment> \<open>\<open>currentChar + suffix\<close>: string concatenation prints \<open>undefined\<close> by name.\<close>
  "prepend c s = (case c of Some u \<Rightarrow> u # s | None \<Rightarrow> ascii ''undefined'' @ s)"

definition slice :: "jsstring \<Rightarrow> int \<Rightarrow> int \<Rightarrow> jsstring" where
  \<comment> \<open>\<open>String.prototype.slice(start, end)\<close>: a negative bound counts from the end.\<close>
  "slice s start end' =
     (let len = int (length s);
          from = (if start < 0 then max (len + start) 0 else min start len);
          to = (if end' < 0 then max (len + end') 0 else min end' len)
      in take (nat (to - from)) (drop (nat from) s))"

definition isWhiteSpace :: "16 word \<Rightarrow> bool" where
  \<comment> \<open>The code units \<open>String.prototype.trim\<close> strips: white space and line terminators.\<close>
  "isWhiteSpace c =
     (c = 0x9 \<or> c = 0xA \<or> c = 0xB \<or> c = 0xC \<or> c = 0xD \<or> c = 0x20 \<or> c = 0xA0
      \<or> c = 0x1680 \<or> (0x2000 \<le> c \<and> c \<le> 0x200A) \<or> c = 0x2028 \<or> c = 0x2029
      \<or> c = 0x202F \<or> c = 0x205F \<or> c = 0x3000 \<or> c = 0xFEFF)"

definition trim :: "jsstring \<Rightarrow> jsstring" where
  "trim s = rev (dropWhile isWhiteSpace (rev (dropWhile isWhiteSpace s)))"

subsection \<open>Documents, the client and result items\<close>

text \<open>
  The types imported by provider.ts. A \<open>DocID\<close> is a number used as a set key. An
  \<open>IndexedDoc\<close> has a \<open>doc\<close> part (\<open>id\<close>, optional \<open>url\<close>) and an optional \<open>content\<close>
  part (\<open>title\<close>, \<open>textContent\<close>); provider.ts reads every field but \<open>id\<close> as optional.
  A \<open>SearchResult\<close> names its document by \<open>DocID\<close>.
\<close>

type_synonym DocID = int

record Doc =
  doc_id :: DocID
  doc_url :: "jsstring option"

record Content =
  content_title :: "jsstring option"
  textContent :: "jsstring option"

record IndexedDoc =
  doc :: Doc
  content :: "Content option"

record SearchResult =
  result_doc :: DocID

datatype result = ASearchResult SearchResult | AnIndexedDoc IndexedDoc

text \<open>
  The client made by \<open>createClient(index, ...)\<close> is used through three members: the
  listing \<open>client.docs\<close>, the search \<open>client.search({ text })\<close> and the lookup
  \<open>client.doc(id)\<close>. They are parameters of the model; the search and the lookup
  return for every argument.
\<close>

record Client =
  docs :: "IndexedDoc list"
  search :: "jsstring \<Rightarrow> SearchResult list"
  client_doc :: "DocID \<Rightarrow> IndexedDoc"

text \<open>
  An item of \<open>ItemsResult\<close>: \<open>ui_hover_text\<close> is \<open>ui.hover.text\<close>, \<open>None\<close> when
  \<open>ui.hover\<close> is \<open>undefined\<close>; \<open>ai_content\<close> is \<open>ai.content\<close>.
\<close>

record Item =
  title :: jsstring
  url :: "jsstring option"
  ui_hover_text :: "jsstring option"
  ai_content :: "jsstring option"

text \<open>
  What \<open>fetchIndex\<close> touches outside provider.ts: the \<open>URL\<close> constructor,
  \<open>readFile\<close> (with its import), \<open>JSON.parse\<close>, \<open>fetch\<close> with the \<open>Response\<close> it
  resolves to (\<open>ok\<close>, \<open>status\<close> and the outcome of \<open>json()\<close>), and
  \<open>fromJSON\<close> of corpusIndex.ts. Each may throw; \<open>'x\<close> is the type of what they throw,
  \<open>'j\<close> that of parsed JSON, \<open>'c\<close> that of a \<open>CorpusIndex\<close>.
\<close>

datatype 'x error =
  Error jsstring  \<comment> \<open>\<open>new Error(message)\<close>, thrown by \<open>fetchIndex\<close> itself\<close>
| Thrown 'x  \<comment> \<open>thrown by one of the functions it calls\<close>

record URL =
  protocol :: jsstring
  pathname :: jsstring

record ('x, 'j) Response =
  ok :: bool
  status :: nat
  json :: "'x + 'j"

record ('x, 'j, 'c) Env =
  newURL :: "jsstring \<Rightarrow> 'x + URL"
  readFile :: "jsstring \<Rightarrow> 'x + jsstring"
  JSON_parse :: "jsstring \<Rightarrow> 'x + 'j"
  fromJSON :: "'j \<Rightarrow> 'x + 'c"
  fetch :: "jsstring \<Rightarrow> 'x + ('x, 'j) Response"

subsection \<open>truncate and longestCommonSuffix\<close>

definition truncate :: "jsstring \<Rightarrow> nat \<Rightarrow> jsstring" where
  \<comment> \<open>\<open>truncate(text, maxLength)\<close>\<close>
  "truncate text maxLength =
     (if length text > maxLength then slice text 0 (int maxLength) @ ascii ''...'' else text)"

function suffixLoop :: "jsstring list \<Rightarrow> nat \<Rightarrow> nat \<Rightarrow> jsstring \<Rightarrow> jsstring" where
  \<comment> \<open>The \<open>for (let i = 0; i < minLen; i++)\<close> loop, from index \<open>i\<close> with the suffix so far.\<close>
  "suffixLoop texts minLen i suffix' =
     (if i < minLen then
        (let currentChar = charAt (texts ! 0) (int (length (texts ! 0)) - 1 - int i)
         in if list_all (\<lambda>text. charAt text (int (length text) - 1 - int i) = currentChar) texts
            then suffixLoop texts minLen (i + 1) (prepend currentChar suffix')
            else suffix')
      else suffix')"
  by pat_completeness auto
termination
  by (relation "measure (\<lambda>(texts, minLen, i, suffix'). minLen - i)") auto

definition longestCommonSuffix :: "jsstring list \<Rightarrow> jsstring" where
  "longestCommonSuffix texts =
     (if length texts = 0 then []
      else if length texts = 1 then texts ! 0
      else suffixLoop texts (min_list (map length texts)) 0 [])"

declare suffixLoop.simps [simp del]

subsection \<open>items\<close>

definition truthy :: "jsstring option \<Rightarrow> bool" where
  \<comment> \<open>A string-or-undefined value in a condition: \<open>undefined\<close> and \<open>''\<close> are falsy.\<close>
  "truthy v = (case v of None \<Rightarrow> False | Some s \<Rightarrow> s \<noteq> [])"

definition orElse :: "jsstring option \<Rightarrow> jsstring option \<Rightarrow> jsstring option" where
  \<comment> \<open>\<open>a || b\<close>\<close>
  "orElse a b = (if truthy a then a else b)"

definition resolve :: "Client \<Rightarrow> result \<Rightarrow> IndexedDoc" where
  \<comment> \<open>\<open>isSearchResult(result) ? client.doc(result.doc) : result\<close>, where
      \<open>isSearchResult\<close> tests that \<open>doc\<close> is a number: the \<open>doc\<close> of a \<open>SearchResult\<close>
      is one, that of an \<open>IndexedDoc\<close> is an object.\<close>
  "resolve client r =
     (case r of ASearchResult sr \<Rightarrow> client_doc client (result_doc sr) | AnIndexedDoc d \<Rightarrow> d)"

definition content_field :: "(Content \<Rightarrow> jsstring option) \<Rightarrow> IndexedDoc \<Rightarrow> jsstring option" where
  \<comment> \<open>\<open>doc.content?.f\<close>\<close>
  "content_field f d = (case content d of None \<Rightarrow> None | Some c \<Rightarrow> f c)"

definition newItem :: "IndexedDoc \<Rightarrow> Item" where
  \<comment> \<open>The object literal pushed for a document (lines 39 to 50).\<close>
  "newItem d =
     \<lparr> title = (case orElse (orElse (content_field content_title d) (doc_url (doc d)))
                           (Some (ascii ''Untitled''))
                of Some t \<Rightarrow> t | None \<Rightarrow> []),
       url = doc_url (doc d),
       ui_hover_text =
         (if truthy (content_field textContent d)
          then map_option (\<lambda>t. truncate t 200) (content_field textContent d)
          else None),
       ai_content = content_field textContent d \<rparr>"

fun collect :: "Client \<Rightarrow> result list \<Rightarrow> DocID set \<Rightarrow> Item list \<Rightarrow> Item list" where
  \<comment> \<open>The \<open>for (const result of results)\<close> loop with its \<open>seenDocIDs\<close> and \<open>items\<close>.\<close>
  "collect client [] seenDocIDs items = items"
| "collect client (r # results) seenDocIDs items =
     (let d = resolve client r
      in if doc_id (doc d) \<in> seenDocIDs then collect client results seenDocIDs items
         else collect client results (insert (doc_id (doc d)) seenDocIDs) (items @ [newItem d]))"

definition trimCommonSuffix :: "Item list \<Rightarrow> Item list" where
  \<comment> \<open>Lines 53 to 65.\<close>
  "trimCommonSuffix items =
     (if length items \<ge> 2 then
        (let suffix' = longestCommonSuffix (map title items)
         in if suffix' \<noteq> [] then
              map (\<lambda>r. if length (title r) \<ge> length suffix' + 10
                        then r\<lparr>title := slice (title r) 0 (- 1 * int (length suffix'))\<rparr>
                        else r) items
            else items)
      else items)"

definition truncateTitles :: "Item list \<Rightarrow> Item list" where
  \<comment> \<open>Lines 69 to 71.\<close>
  "truncateTitles items = map (\<lambda>r. r\<lparr>title := truncate (title r) 50\<rparr>) items"

text \<open>
  \<open>items(params)\<close>, given \<open>params.query\<close>. The result is paired with the list of
  texts the search was called with, in order, so that a call of the search is visible.
\<close>

definition selectResults :: "Client \<Rightarrow> jsstring option \<Rightarrow> jsstring list \<times> result list" where
  \<comment> \<open>Lines 27 and 28.\<close>
  "selectResults client params_query =
     (let query = map_option trim params_query
      in if truthy query
         then (case query of
                 Some q \<Rightarrow> ([q], map ASearchResult (search client q))
               | None \<Rightarrow> ([], []))
         else ([], map AnIndexedDoc (docs client)))"

definition items :: "Client \<Rightarrow> jsstring option \<Rightarrow> jsstring list \<times> Item list" where
  "items client params_query =
     (let (calls, results) = selectResults client params_query
      in (calls, truncateTitles (trimCommonSuffix (collect client results {} []))))"

subsection \<open>fetchIndex\<close>

fun decimal :: "nat \<Rightarrow> jsstring" where
  \<comment> \<open>A status number in a template literal: its decimal digits.\<close>
  "decimal n =
     (if n < 10 then [of_nat (48 + n)] else decimal (n div 10) @ [of_nat (48 + n mod 10)])"

declare decimal.simps [simp del]

definition failedToFetch :: "jsstring \<Rightarrow> nat \<Rightarrow> jsstring" where
  \<comment> \<open>The message of line 91.\<close>
  "failedToFetch urlStr st =
     ascii ''Failed to fetch corpus index from '' @ urlStr
       @ ascii '' with HTTP status '' @ decimal st"

definition lift :: "'x + 'a \<Rightarrow> ('a \<Rightarrow> 'x error + 'b) \<Rightarrow> 'x error + 'b" where
  \<comment> \<open>Run a call that may throw, then the rest; what it throws ends \<open>fetchIndex\<close>.\<close>
  "lift r k = (case r of Inl x \<Rightarrow> Inl (Thrown x) | Inr v \<Rightarrow> k v)"

definition fetchIndex :: "('x, 'j, 'c) Env \<Rightarrow> jsstring \<Rightarrow> 'x error + 'c" where
  "fetchIndex env urlStr =
     lift (newURL env urlStr) (\<lambda>url'.
       if protocol url' = ascii ''file:'' then
         lift (readFile env (pathname url')) (\<lambda>contents.
           lift (JSON_parse env contents) (\<lambda>j.
             lift (fromJSON env j) Inr))
       else
         lift (fetch env urlStr) (\<lambda>resp.
           if \<not> ok resp then Inl (Error (failedToFetch urlStr (status resp)))
           else lift (json resp) (\<lambda>j. lift (fromJSON env j) Inr)))"

subsection \<open>The title and the preview as the specification words them\<close>

definition claimed_title :: "IndexedDoc \<Rightarrow> jsstring" where
  \<comment> \<open>The specification's wording: the title if present and non-empty, else the URL if
      present, else \<open>Untitled\<close>.\<close>
  "claimed_title d =
     (let fallback = (case doc_url (doc d) of Some u \<Rightarrow> u | None \<Rightarrow> ascii ''Untitled'')
      in case content_field content_title d of
           Some t \<Rightarrow> if t \<noteq> [] then t else fallback
         | None \<Rightarrow> fallback)"

definition claimed_preview :: "IndexedDoc \<Rightarrow> jsstring option" where
  \<comment> \<open>The specification's wording: whenever the text content is present, its first 200
      characters, with an ellipsis exactly when it is longer; no preview when absent.\<close>
  "claimed_preview d =
     (case content_field textContent d of
        Some t \<Rightarrow> Some (if 200 < length t then take 200 t @ ascii ''...'' else t)
      | None \<Rightarrow> None)"

subsection \<open>Example inputs\<close>

definition indexedDoc ::
  "DocID \<Rightarrow> jsstring option \<Rightarrow> jsstring option \<Rightarrow> jsstring option \<Rightarrow> IndexedDoc" where
  \<comment> \<open>A document with the given id, URL, title and text content.\<close>
  "indexedDoc i u t x =
     \<lparr> doc = \<lparr> doc_id = i, doc_url = u \<rparr>,
       content = Some \<lparr> content_title = t, textContent = x \<rparr> \<rparr>"

definition installTitle :: jsstring where
  "installTitle = ascii ''Install '' @ [0x2014] @ ascii '' Foo Docs''"

definition configureTitle :: jsstring where
  "configureTitle = ascii ''Configure '' @ [0x2014] @ ascii '' Foo Docs''"

definition fooDocsSuffix :: jsstring where
  "fooDocsSuffix = ascii '' '' @ [0x2014] @ ascii '' Foo Docs''"

definition fooDocs :: Client where
  \<comment> \<open>A corpus of the two documents titled \<open>installTitle\<close> and \<open>configureTitle\<close>,
      each with an em dash (U+2014) before \<open>Foo Docs\<close>.\<close>
  "fooDocs =
     \<lparr> docs = [indexedDoc 1 None (Some installTitle) None,
                indexedDoc 2 None (Some configureTitle) None],
       search = (\<lambda>q. []),
       client_doc = (\<lambda>i. indexedDoc i None None None) \<rparr>"

definition aTitle :: jsstring where
  \<comment> \<open>67 characters.\<close>
  "aTitle = replicate 60 0x61 @ ascii '' - Docs''"

definition bTitle :: jsstring where
  \<comment> \<open>17 characters.\<close>
  "bTitle = replicate 10 0x62 @ ascii '' - Docs''"

definition longTitles :: Client where
  "longTitles =
     \<lparr> docs = [indexedDoc 1 None (Some aTitle) None, indexedDoc 2 None (Some bTitle) None],
       search = (\<lambda>q. []),
       client_doc = (\<lambda>i. indexedDoc i None None None) \<rparr>"

definition siteItems :: "Item list" where
  "siteItems =
     [\<lparr> title = ascii ''Getting started - Docs'', url = None,
         ui_hover_text = None, ai_content = None \<rparr>,
      \<lparr> title = ascii ''Install - Docs'', url = None,
         ui_hover_text = None, ai_content = None \<rparr>]"

definition handbook :: Client where
  \<comment> \<open>A corpus that lists document 1 twice; its search returns 2, 1, 2.\<close>
  "handbook =
     \<lparr> docs = [indexedDoc 1 None (Some (ascii ''One'')) (Some (ascii ''first'')),
                indexedDoc 2 None (Some (ascii ''Two'')) (Some (ascii ''second'')),
                indexedDoc 1 None (Some (ascii ''One'')) (Some (ascii ''first''))],
       search = (\<lambda>q. [\<lparr> result_doc = 2 \<rparr>, \<lparr> result_doc = 1 \<rparr>, \<lparr> result_doc = 2 \<rparr>]),
       client_doc = (\<lambda>i. indexedDoc i None (Some (ascii ''Found'')) None) \<rparr>"

definition emptyUrlDoc :: IndexedDoc where
  \<comment> \<open>No content, and a URL that is the empty string.\<close>
  "emptyUrlDoc = \<lparr> doc = \<lparr> doc_id = 7, doc_url = Some [] \<rparr>, content = None \<rparr>"

definition emptyTextDoc :: IndexedDoc where
  \<comment> \<open>Text content that is the empty string.\<close>
  "emptyTextDoc = indexedDoc 8 None (Some (ascii ''Blank'')) (Some [])"

definition bareDoc :: IndexedDoc where
  \<comment> \<open>Neither title nor URL nor text.\<close>
  "bareDoc = \<lparr> doc = \<lparr> doc_id = 9, doc_url = None \<rparr>, content = None \<rparr>"

definition dataLocator :: jsstring where
  "dataLocator = ascii ''data:application/json,{}''"

definition dataURL :: URL where
  "dataURL = \<lparr> protocol = ascii ''data:'', pathname = ascii ''application/json,{}'' \<rparr>"

definition dataEnv :: "(unit, nat, nat) Env" where
  \<comment> \<open>A runtime whose \<open>fetch\<close> serves \<open>data:\<close> URLs, as the Fetch standard has it.\<close>
  "dataEnv =
     \<lparr> newURL = (\<lambda>s. if s = dataLocator then Inr dataURL else Inl ()),
       readFile = (\<lambda>p. Inl ()),
       JSON_parse = (\<lambda>s. Inl ()),
       fromJSON = (\<lambda>j. Inr j),
       fetch = (\<lambda>s. if s = dataLocator then Inr \<lparr> ok = True, status = 200, json = Inr 0 \<rparr>
                      else Inl ()) \<rparr>"

definition missingLocator :: jsstring where
  "missingLocator = ascii ''https://example.com/index.json''"

definition missingEnv :: "(unit, nat, nat) Env" where
  \<comment> \<open>A runtime whose \<open>fetch\<close> answers 404.\<close>
  "missingEnv =
     \<lparr> newURL = (\<lambda>s. Inr \<lparr> protocol = ascii ''https:'', pathname = ascii ''/index.json'' \<rparr>),
       readFile = (\<lambda>p. Inl ()),
       JSON_parse = (\<lambda>s. Inl ()),
       fromJSON = (\<lambda>j. Inr j),
       fetch = (\<lambda>s. Inr \<lparr> ok = False, status = 404, json = Inl () \<rparr>) \<rparr>"

subsection \<open>Lemmas about the string functions and the loops\<close>

lemma slice_take: "slice s 0 (int n) = take n s"
  by (simp add: slice_def Let_def min_def)

lemma slice_drop_end: "0 < n \<Longrightarrow> slice s 0 (- 1 * int n) = take (length s - n) s"
  by (simp add: slice_def Let_def max_def nat_diff_distrib')

lemma trimCommonSuffix_eq:
  "trimCommonSuffix its =
     (if 2 \<le> length its
      then map (\<lambda>r. if length (longestCommonSuffix (map title its)) + 10 \<le> length (title r)
                     then r\<lparr>title := take (length (title r)
                                  - length (longestCommonSuffix (map title its))) (title r)\<rparr>
                     else r) its
      else its)"
proof (cases "longestCommonSuffix (map title its) = []")
  case True
  then show ?thesis by (simp add: trimCommonSuffix_def map_idI)
next
  case False
  then have "0 < length (longestCommonSuffix (map title its))" by simp
  from slice_drop_end [OF this] False show ?thesis
    by (simp add: trimCommonSuffix_def Let_def)
qed

lemma first_indices_Cons:
  "filter P [0..<Suc n] = (if P 0 then [0] else []) @ map Suc (filter (\<lambda>i. P (Suc i)) [0..<n])"
proof -
  have "[0..<Suc n] = 0 # map Suc [0..<n]"
    by (simp add: upt_conv_Cons map_Suc_upt del: upt_Suc)
  then show ?thesis by (simp add: filter_map o_def del: upt_Suc)
qed

lemma collect_first_occurrences:
  "collect client rs seen acc =
     acc @ map (\<lambda>i. newItem (map (resolve client) rs ! i))
            (filter (\<lambda>i. doc_id (doc (map (resolve client) rs ! i)) \<notin> seen
                        \<and> (\<forall>j<i. doc_id (doc (map (resolve client) rs ! j))
                                   \<noteq> doc_id (doc (map (resolve client) rs ! i))))
               [0..<length rs])"
proof (induction rs arbitrary: seen acc)
  case Nil
  show ?case by simp
next
  case (Cons r rs)
  let ?d = "resolve client r"
  let ?ds = "map (resolve client) rs"
  let ?k = "\<lambda>d. doc_id (doc d)"
  show ?case
  proof (cases "?k ?d \<in> seen")
    case True
    have eq: "(\<lambda>i. ?k (?ds ! i) \<notin> seen \<and> ?k ?d \<noteq> ?k (?ds ! i)
                   \<and> (\<forall>j<i. ?k (?ds ! j) \<noteq> ?k (?ds ! i)))
              = (\<lambda>i. ?k (?ds ! i) \<notin> seen \<and> (\<forall>j<i. ?k (?ds ! j) \<noteq> ?k (?ds ! i)))"
      using True by (intro ext) auto
    from True show ?thesis
      by (simp add: first_indices_Cons All_less_Suc2 o_def Cons.IH eq Let_def del: upt_Suc)
  next
    case False
    have eq: "(\<lambda>i. ?k (?ds ! i) \<notin> seen \<and> ?k ?d \<noteq> ?k (?ds ! i)
                   \<and> (\<forall>j<i. ?k (?ds ! j) \<noteq> ?k (?ds ! i)))
              = (\<lambda>i. ?k (?ds ! i) \<noteq> ?k ?d \<and> ?k (?ds ! i) \<notin> seen
                   \<and> (\<forall>j<i. ?k (?ds ! j) \<noteq> ?k (?ds ! i)))"
      by (intro ext) auto
    from False show ?thesis
      by (simp add: first_indices_Cons All_less_Suc2 o_def Cons.IH eq Let_def del: upt_Suc)
  qed
qed


lemma first_ids_distinct:
  "distinct (map (\<lambda>i. f (ds ! i)) (filter (\<lambda>i. \<forall>j<i. f (ds ! j) \<noteq> f (ds ! i)) [0..<length ds]))"
proof -
  have "inj_on (\<lambda>i. f (ds ! i)) {i. \<forall>j<i. f (ds ! j) \<noteq> f (ds ! i)}"
  proof (rule inj_onI)
    fix a b
    assume a: "a \<in> {i. \<forall>j<i. f (ds ! j) \<noteq> f (ds ! i)}"
      and b: "b \<in> {i. \<forall>j<i. f (ds ! j) \<noteq> f (ds ! i)}"
      and eq: "f (ds ! a) = f (ds ! b)"
    show "a = b"
    proof (rule ccontr)
      assume "a \<noteq> b"
      then consider "a < b" | "b < a" by linarith
      then show False using a b eq by cases auto
    qed
  qed
  then have "inj_on (\<lambda>i. f (ds ! i))
               (set (filter (\<lambda>i. \<forall>j<i. f (ds ! j) \<noteq> f (ds ! i)) [0..<length ds]))"
    by (rule inj_on_subset) auto
  then show ?thesis by (simp add: distinct_map)
qed

lemma first_ids_set:
  "set (map (\<lambda>i. f (ds ! i)) (filter (\<lambda>i. \<forall>j<i. f (ds ! j) \<noteq> f (ds ! i)) [0..<length ds]))
     = set (map f ds)"
proof
  show "set (map (\<lambda>i. f (ds ! i)) (filter (\<lambda>i. \<forall>j<i. f (ds ! j) \<noteq> f (ds ! i)) [0..<length ds]))
          \<subseteq> set (map f ds)"
    by auto
next
  show "set (map f ds)
          \<subseteq> set (map (\<lambda>i. f (ds ! i)) (filter (\<lambda>i. \<forall>j<i. f (ds ! j) \<noteq> f (ds ! i)) [0..<length ds]))"
  proof
    fix x assume "x \<in> set (map f ds)"
    then obtain n where n: "n < length ds" "f (ds ! n) = x"
      by (auto simp: in_set_conv_nth)
    define m where "m = (LEAST i. i < length ds \<and> f (ds ! i) = x)"
    have m: "m < length ds \<and> f (ds ! m) = x"
      unfolding m_def by (rule LeastI [of _ n]) (use n in simp)
    have least: "\<And>j. j < m \<Longrightarrow> f (ds ! j) \<noteq> f (ds ! m)"
    proof
      fix j assume "j < m" and e: "f (ds ! j) = f (ds ! m)"
      with m have "j < length ds \<and> f (ds ! j) = x" by simp
      then have "m \<le> j" unfolding m_def by (rule Least_le)
      with \<open>j < m\<close> show False by simp
    qed
    from m least show "x \<in> set (map (\<lambda>i. f (ds ! i))
        (filter (\<lambda>i. \<forall>j<i. f (ds ! j) \<noteq> f (ds ! i)) [0..<length ds]))"
      by (auto simp: image_iff intro!: bexI [of _ m])
  qed
qed

lemma length_trimCommonSuffix: "length (trimCommonSuffix its) = length its"
  by (simp add: trimCommonSuffix_eq)

lemma length_truncateTitles: "length (truncateTitles its) = length its"
  by (simp add: truncateTitles_def)

lemma rest_trimCommonSuffix:
  "map (\<lambda>r. (url r, ui_hover_text r, ai_content r)) (trimCommonSuffix its)
     = map (\<lambda>r. (url r, ui_hover_text r, ai_content r)) its"
  by (simp add: trimCommonSuffix_eq o_def if_distrib cong: if_cong)

lemma rest_truncateTitles:
  "map (\<lambda>r. (url r, ui_hover_text r, ai_content r)) (truncateTitles its)
     = map (\<lambda>r. (url r, ui_hover_text r, ai_content r)) its"
  by (simp add: truncateTitles_def o_def)

lemma charAt_from_end:
  "i < length t \<Longrightarrow> charAt t (int (length t) - 1 - int i) = Some (rev t ! i)"
proof -
  assume i: "i < length t"
  then have "nat (int (length t) - 1 - int i) = length t - Suc i" by linarith
  with i show ?thesis by (simp add: charAt_def rev_nth)
qed

lemma take_rev_suffix: "take i (rev t) = rev s \<Longrightarrow> suffix s t"
proof -
  assume "take i (rev t) = rev s"
  then have "prefix (rev s) (rev t)" by (metis take_is_prefix)
  then show ?thesis by (simp add: suffix_to_prefix)
qed

lemma suffix_rev_nth: "suffix s t \<Longrightarrow> i < length s \<Longrightarrow> rev t ! i = rev s ! i"
proof -
  assume "suffix s t" and i: "i < length s"
  then obtain zs where "t = zs @ s" by (auto simp: suffix_def)
  with i show ?thesis by (simp add: nth_append)
qed

lemma suffixLoop_correct:
  assumes ne: "texts \<noteq> []"
    and lens: "\<forall>t\<in>set texts. minLen \<le> length t"
    and shortest: "\<exists>t\<in>set texts. length t = minLen"
  shows "minLen - i = n \<Longrightarrow> i \<le> minLen \<Longrightarrow> \<forall>t\<in>set texts. take i (rev t) = rev acc \<Longrightarrow>
         (\<forall>t\<in>set texts. suffix (suffixLoop texts minLen i acc) t) \<and>
         (\<forall>s. (\<forall>t\<in>set texts. suffix s t) \<longrightarrow> suffix s (suffixLoop texts minLen i acc))"
proof (induction n arbitrary: i acc)
  case 0
  then have i: "i = minLen" by simp
  then have res: "suffixLoop texts minLen i acc = acc" by (simp add: suffixLoop.simps)
  from shortest obtain t0 where t0: "t0 \<in> set texts" "length t0 = minLen" by blast
  with 0 i have "rev t0 = rev acc" by fastforce
  then have "t0 = acc" by simp
  with t0 0 show ?case unfolding res by (auto intro: take_rev_suffix)
next
  case (Suc n)
  then have i: "i < minLen" by simp
  let ?t0 = "texts ! 0"
  have t0: "?t0 \<in> set texts" using ne by simp
  have len_acc: "length acc = i"
  proof -
    from Suc.prems t0 have "take i (rev ?t0) = rev acc" by blast
    then have "length (take i (rev ?t0)) = length acc" by simp
    moreover have "i \<le> length ?t0" using lens t0 i by fastforce
    ultimately show ?thesis by simp
  qed
  have cur: "charAt ?t0 (int (length ?t0) - 1 - int i) = Some (rev ?t0 ! i)"
    using lens t0 i by (intro charAt_from_end) fastforce
  have each: "\<And>t. t \<in> set texts \<Longrightarrow> charAt t (int (length t) - 1 - int i) = Some (rev t ! i)"
    using lens i by (intro charAt_from_end) fastforce
  show ?case
  proof (cases "\<forall>t\<in>set texts. rev t ! i = rev ?t0 ! i")
    case True
    then have res: "suffixLoop texts minLen i acc
        = suffixLoop texts minLen (Suc i) (rev ?t0 ! i # acc)"
      using i cur each
      by (subst suffixLoop.simps) (simp add: Let_def list_all_iff prepend_def)
    have inv: "\<forall>t\<in>set texts. take (Suc i) (rev t) = rev (rev ?t0 ! i # acc)"
    proof
      fix t assume t: "t \<in> set texts"
      then have "i < length (rev t)" using lens i by fastforce
      then have "take (Suc i) (rev t) = take i (rev t) @ [rev t ! i]"
        by (rule take_Suc_conv_app_nth)
      with t True Suc.prems show "take (Suc i) (rev t) = rev (rev ?t0 ! i # acc)" by simp
    qed
    from Suc.prems i have "minLen - Suc i = n" "Suc i \<le> minLen" by simp_all
    from Suc.IH [OF this inv] show ?thesis unfolding res .
  next
    case False
    then obtain t1 where t1: "t1 \<in> set texts" "rev t1 ! i \<noteq> rev ?t0 ! i" by blast
    have res: "suffixLoop texts minLen i acc = acc"
      using i cur each t1
      by (subst suffixLoop.simps) (auto simp: Let_def list_all_iff)
    have "suffix s acc" if s: "\<forall>t\<in>set texts. suffix s t" for s
    proof -
      have "length s \<le> i"
      proof (rule ccontr)
        assume "\<not> length s \<le> i"
        then have "i < length s" by simp
        with s t0 t1 have "rev t1 ! i = rev s ! i" "rev ?t0 ! i = rev s ! i"
          by (auto intro: suffix_rev_nth)
        with t1 show False by simp
      qed
      moreover have "suffix acc ?t0" using Suc.prems t0 by (blast intro: take_rev_suffix)
      moreover have "suffix s ?t0" using s t0 by blast
      ultimately show ?thesis using len_acc by (auto intro: suffix_length_suffix)
    qed
    with Suc.prems show ?thesis unfolding res by (auto intro: take_rev_suffix)
  qed
qed

lemma longestCommonSuffix_correct:
  assumes "2 \<le> length texts"
  shows "(\<forall>t\<in>set texts. suffix (longestCommonSuffix texts) t) \<and>
         (\<forall>s. (\<forall>t\<in>set texts. suffix s t) \<longrightarrow> suffix s (longestCommonSuffix texts))"
proof -
  from assms have ne: "texts \<noteq> []" by auto
  let ?m = "min_list (map length texts)"
  have m: "?m = Min (set (map length texts))" using ne by (simp add: min_list_Min)
  have lens: "\<forall>t\<in>set texts. ?m \<le> length t" unfolding m by simp
  have "Min (set (map length texts)) \<in> set (map length texts)"
    using ne by (intro Min_in) simp_all
  then have shortest: "\<exists>t\<in>set texts. length t = ?m" unfolding m by auto
  have res: "longestCommonSuffix texts = suffixLoop texts ?m 0 []"
    using assms by (auto simp: longestCommonSuffix_def)
  show ?thesis unfolding res
    by (rule suffixLoop_correct [OF ne lens shortest refl]) simp_all
qed

lemma truncate_eq: "truncate t n = (if n < length t then take n t @ ascii ''...'' else t)"
  by (simp add: truncate_def slice_take)

lemma truncate_nonempty: "t \<noteq> [] \<Longrightarrow> truncate t n \<noteq> []"
  by (simp add: truncate_eq ascii_def)

lemma title_newItem:
  "title (newItem d) =
     (if truthy (content_field content_title d) then the (content_field content_title d)
      else if truthy (doc_url (doc d)) then the (doc_url (doc d))
      else ascii ''Untitled'')"
  by (auto simp: newItem_def orElse_def truthy_def split: option.splits)

lemma title_newItem_nonempty: "title (newItem d) \<noteq> []"
  by (auto simp: title_newItem truthy_def ascii_def split: option.splits)

lemma items_snd:
  "snd (items client q)
     = truncateTitles (trimCommonSuffix (collect client (snd (selectResults client q)) {} []))"
  by (simp add: items_def split: prod.splits)

lemma selectResults_eq:
  "selectResults client q =
     (case q of
        None \<Rightarrow> ([], map AnIndexedDoc (docs client))
      | Some s \<Rightarrow>
          if trim s = [] then ([], map AnIndexedDoc (docs client))
          else ([trim s], map ASearchResult (search client (trim s))))"
  by (simp add: selectResults_def truthy_def Let_def split: option.splits)

lemma collect_emitted:
  "collect client rs {} [] =
     map (\<lambda>i. newItem (map (resolve client) rs ! i))
       (filter (\<lambda>i. \<forall>j<i. doc_id (doc (map (resolve client) rs ! j))
                           \<noteq> doc_id (doc (map (resolve client) rs ! i)))
          [0..<length rs])"
  by (simp add: collect_first_occurrences)

lemma collect_titles_nonempty: "\<forall>r\<in>set (collect client rs {} []). title r \<noteq> []"
  by (simp add: collect_emitted title_newItem_nonempty)

lemma trimCommonSuffix_nonempty:
  "\<forall>r\<in>set its. title r \<noteq> [] \<Longrightarrow> \<forall>r\<in>set (trimCommonSuffix its). title r \<noteq> []"
  by (auto simp: trimCommonSuffix_eq)

lemma truncateTitles_nonempty:
  "\<forall>r\<in>set its. title r \<noteq> [] \<Longrightarrow> \<forall>r\<in>set (truncateTitles its). title r \<noteq> []"
  by (auto simp: truncateTitles_def truncate_nonempty)

lemma trimCommonSuffix_keeps_ten:
  "i < length its \<Longrightarrow>
   title (trimCommonSuffix its ! i) = title (its ! i)
   \<or> 10 \<le> length (title (trimCommonSuffix its ! i))"
  by (auto simp: trimCommonSuffix_eq)

lemma lift_simps:
  "lift (Inl x) k = Inl (Thrown x)" "lift (Inr v) k = k v"
  by (simp_all add: lift_def)

subsection \<open>The claims\<close>

text \<open>
  C1. The suffix-trimming step leaves a list of fewer than two items alone. On two or more
  items the string \<open>S\<close> it computes is a suffix of every title and every common suffix of
  the titles is a suffix of \<open>S\<close>, so \<open>S\<close> is the longest one; an item whose title has at
  least \<open>length S + 10\<close> characters loses exactly the trailing \<open>S\<close> of its title, every
  other item is unchanged, and nothing changes when \<open>S\<close> is empty.
\<close>

theorem trimCommonSuffix_strips_longest_common_suffix:
  "(length its < 2 \<longrightarrow> trimCommonSuffix its = its) \<and>
   (2 \<le> length its \<longrightarrow>
     (let S = longestCommonSuffix (map title its)
      in (\<forall>r\<in>set its. suffix S (title r))
       \<and> (\<forall>s. (\<forall>r\<in>set its. suffix s (title r)) \<longrightarrow> suffix s S \<and> length s \<le> length S)
       \<and> trimCommonSuffix its
            = map (\<lambda>r. if length S + 10 \<le> length (title r)
                        then r\<lparr>title := take (length (title r) - length S) (title r)\<rparr>
                        else r) its
       \<and> (\<forall>r\<in>set its. length S + 10 \<le> length (title r) \<longrightarrow>
             take (length (title r) - length S) (title r) @ S = title r)
       \<and> (S = [] \<longrightarrow> trimCommonSuffix its = its)))"
proof (intro conjI impI)
  assume "length its < 2"
  then show "trimCommonSuffix its = its" by (simp add: trimCommonSuffix_def)
next
  assume two: "2 \<le> length its"
  define S where "S = longestCommonSuffix (map title its)"
  from two have "2 \<le> length (map title its)" by simp
  from longestCommonSuffix_correct [OF this]
  have common: "\<forall>r\<in>set its. suffix S (title r)"
    and longest: "\<And>s. (\<forall>r\<in>set its. suffix s (title r)) \<Longrightarrow> suffix s S"
    unfolding S_def by auto
  have trimmed: "trimCommonSuffix its
      = map (\<lambda>r. if length S + 10 \<le> length (title r)
                  then r\<lparr>title := take (length (title r) - length S) (title r)\<rparr>
                  else r) its"
    using two unfolding S_def by (simp add: trimCommonSuffix_eq)
  have exact: "take (length (title r) - length S) (title r) @ S = title r"
    if "r \<in> set its" for r
  proof -
    from common that obtain zs where "title r = zs @ S" by (auto simp: suffix_def)
    then show ?thesis by simp
  qed
  have noop: "trimCommonSuffix its = its" if "S = []"
    using that unfolding trimmed by (simp add: map_idI)
  from common longest trimmed exact noop
  show "let S = longestCommonSuffix (map title its)
      in (\<forall>r\<in>set its. suffix S (title r))
       \<and> (\<forall>s. (\<forall>r\<in>set its. suffix s (title r)) \<longrightarrow> suffix s S \<and> length s \<le> length S)
       \<and> trimCommonSuffix its
            = map (\<lambda>r. if length S + 10 \<le> length (title r)
                        then r\<lparr>title := take (length (title r) - length S) (title r)\<rparr>
                        else r) its
       \<and> (\<forall>r\<in>set its. length S + 10 \<le> length (title r) \<longrightarrow>
             take (length (title r) - length S) (title r) @ S = title r)
       \<and> (S = [] \<longrightarrow> trimCommonSuffix its = its)"
    unfolding S_def [symmetric] Let_def by (auto dest: suffix_length_le)
qed

theorem trimCommonSuffix_strips_longest_common_suffix_witness:
  "2 \<le> length siteItems
   \<and> longestCommonSuffix (map title siteItems) = ascii '' - Docs''
   \<and> suffix (ascii '' - Docs'') (title (siteItems ! 0))
   \<and> suffix (ascii '' - Docs'') (title (siteItems ! 1))
   \<and> map title (trimCommonSuffix siteItems) = [ascii ''Getting started'', ascii ''Install - Docs'']"
proof -
  have two: "2 \<le> length siteItems" by (simp add: siteItems_def)
  have S: "longestCommonSuffix (map title siteItems) = ascii '' - Docs''"
    by (simp add: siteItems_def longestCommonSuffix_def suffixLoop.simps charAt_def
        prepend_def ascii_def)
  have len: "length (ascii '' - Docs'') = 7" by (simp add: ascii_def)
  from trimCommonSuffix_strips_longest_common_suffix [of siteItems] two
  have all: "(\<forall>r\<in>set siteItems. suffix (ascii '' - Docs'') (title r))
     \<and> trimCommonSuffix siteItems
          = map (\<lambda>r. if 17 \<le> length (title r)
                      then r\<lparr>title := take (length (title r) - 7) (title r)\<rparr>
                      else r) siteItems"
    unfolding S Let_def len by simp
  then have "map title (trimCommonSuffix siteItems)
      = [ascii ''Getting started'', ascii ''Install - Docs'']"
    by (simp add: siteItems_def ascii_def)
  moreover have "siteItems ! 0 \<in> set siteItems" "siteItems ! 1 \<in> set siteItems"
    by (simp_all add: siteItems_def)
  ultimately show ?thesis using two S all by blast
qed

lemma fooDocs_emitted:
  "collect fooDocs (map AnIndexedDoc (docs fooDocs)) {} []
     = [\<lparr> title = installTitle, url = None, ui_hover_text = None, ai_content = None \<rparr>,
        \<lparr> title = configureTitle, url = None, ui_hover_text = None, ai_content = None \<rparr>]"
  by (simp add: fooDocs_def indexedDoc_def resolve_def newItem_def orElse_def truthy_def
      content_field_def installTitle_def configureTitle_def ascii_def Let_def)

lemma fooDocs_common_suffix: "longestCommonSuffix [installTitle, configureTitle] = fooDocsSuffix"
  by (simp add: longestCommonSuffix_def suffixLoop.simps charAt_def prepend_def ascii_def
      installTitle_def configureTitle_def fooDocsSuffix_def)

lemma fooDocs_lengths:
  "length installTitle = 18" "length configureTitle = 20" "length fooDocsSuffix = 11"
  by (simp_all add: installTitle_def configureTitle_def fooDocsSuffix_def ascii_def)

lemma fooDocs_items_titles:
  "map title (snd (items fooDocs None)) = [installTitle, configureTitle]"
  by (simp add: items_snd selectResults_eq fooDocs_emitted trimCommonSuffix_eq fooDocs_common_suffix
      fooDocs_lengths truncateTitles_def truncate_eq)

text \<open>
  C2, as stated, fails. For the two titles with the em dash, \<open>items\<close> does not return
  the titles \<open>Install\<close> and \<open>Configure\<close>.
\<close>

theorem fooDocs_suffix_not_stripped:
  "map title (snd (items fooDocs None)) \<noteq> [ascii ''Install'', ascii ''Configure'']"
  by (simp add: fooDocs_items_titles installTitle_def ascii_def)

text \<open>
  C2, amended. For the two documents titled \<open>installTitle\<close> and \<open>configureTitle\<close> the
  shared suffix of 11 characters (space, em dash, \<open> Foo Docs\<close>) is detected, but the
  titles have 18 and 20 characters, fewer than the 21 the guard asks for, so the suffix
  is stripped from neither and both titles are returned unchanged.
\<close>

theorem fooDocs_titles_kept:
  "longestCommonSuffix [installTitle, configureTitle] = fooDocsSuffix
   \<and> length fooDocsSuffix + 10 = 21
   \<and> length installTitle = 18
   \<and> length configureTitle = 20
   \<and> map title (snd (items fooDocs None)) = [installTitle, configureTitle]"
  by (simp add: fooDocs_common_suffix fooDocs_lengths fooDocs_items_titles)

text \<open>
  C3. Whatever the candidate list, the loop emits the items built from exactly those
  candidates whose resolved document id did not occur at an earlier position, in the
  order of the candidates: one item for each distinct id, at the place of the id's first
  occurrence. A candidate whose id has been seen changes neither the set nor the list.
  The two later passes keep the length of the list and, at every position, the URL, the
  preview and the content. The candidates of \<open>items\<close> are the listing of the corpus in
  its order, or the results of the search in theirs.
\<close>

theorem collect_emits_first_occurrences_in_order:
  "(let ds = map (resolve client) results;
        firsts = filter (\<lambda>i. \<forall>j<i. doc_id (doc (ds ! j)) \<noteq> doc_id (doc (ds ! i)))
                   [0..<length ds];
        emitted = collect client results {} [];
        out = truncateTitles (trimCommonSuffix emitted)
    in emitted = map (\<lambda>i. newItem (ds ! i)) firsts
     \<and> distinct (map (\<lambda>i. doc_id (doc (ds ! i))) firsts)
     \<and> set (map (\<lambda>i. doc_id (doc (ds ! i))) firsts) = set (map (\<lambda>d. doc_id (doc d)) ds)
     \<and> length out = length emitted
     \<and> map (\<lambda>r. (url r, ui_hover_text r, ai_content r)) out
         = map (\<lambda>r. (url r, ui_hover_text r, ai_content r)) emitted)
   \<and> (doc_id (doc (resolve client r)) \<in> seen \<longrightarrow>
        collect client (r # rs) seen acc = collect client rs seen acc)
   \<and> snd (items client q)
        = truncateTitles (trimCommonSuffix (collect client (snd (selectResults client q)) {} []))
   \<and> snd (selectResults client q)
        = (case q of
             None \<Rightarrow> map AnIndexedDoc (docs client)
           | Some s \<Rightarrow> if trim s = [] then map AnIndexedDoc (docs client)
                       else map ASearchResult (search client (trim s)))"
proof -
  let ?ds = "map (resolve client) results"
  let ?firsts = "filter (\<lambda>i. \<forall>j<i. doc_id (doc (?ds ! j)) \<noteq> doc_id (doc (?ds ! i)))
                   [0..<length ?ds]"
  let ?emitted = "collect client results {} []"
  let ?out = "truncateTitles (trimCommonSuffix ?emitted)"
  have a: "?emitted = map (\<lambda>i. newItem (?ds ! i)) ?firsts"
    by (simp add: collect_emitted)
  have b: "distinct (map (\<lambda>i. doc_id (doc (?ds ! i))) ?firsts)"
    by (rule first_ids_distinct [where f = "\<lambda>d. doc_id (doc d)"])
  have c: "set (map (\<lambda>i. doc_id (doc (?ds ! i))) ?firsts) = set (map (\<lambda>d. doc_id (doc d)) ?ds)"
    by (rule first_ids_set [where f = "\<lambda>d. doc_id (doc d)"])
  have d: "length ?out = length ?emitted"
    by (simp add: length_truncateTitles length_trimCommonSuffix)
  have e: "map (\<lambda>r. (url r, ui_hover_text r, ai_content r)) ?out
         = map (\<lambda>r. (url r, ui_hover_text r, ai_content r)) ?emitted"
    by (simp only: rest_truncateTitles rest_trimCommonSuffix)
  have f: "doc_id (doc (resolve client r)) \<in> seen \<longrightarrow>
        collect client (r # rs) seen acc = collect client rs seen acc"
    by (simp add: Let_def)
  have g: "snd (selectResults client q)
        = (case q of
             None \<Rightarrow> map AnIndexedDoc (docs client)
           | Some s \<Rightarrow> if trim s = [] then map AnIndexedDoc (docs client)
                       else map ASearchResult (search client (trim s)))"
    by (simp add: selectResults_eq split: option.splits)
  from a b c d e f g items_snd [of client q] show ?thesis
    unfolding Let_def by (intro conjI)
qed

theorem collect_emits_first_occurrences_in_order_witness:
  "doc_id (doc (resolve handbook (AnIndexedDoc (docs handbook ! 2)))) \<in> {1, 2}
   \<and> collect handbook [AnIndexedDoc (docs handbook ! 2)] {1, 2} [] = []
   \<and> collect handbook (map AnIndexedDoc (docs handbook)) {} []
        = [newItem (docs handbook ! 0), newItem (docs handbook ! 1)]
   \<and> length (snd (items handbook None)) = 2"
proof -
  let ?results = "map AnIndexedDoc (docs handbook)"
  let ?r = "AnIndexedDoc (docs handbook ! 2)"
  note inst = collect_emits_first_occurrences_in_order
    [where client = handbook and results = ?results and q = None and r = ?r
       and seen = "{1, 2}" and rs = "[]" and acc = "[]", unfolded Let_def]
  note emitted_eq = inst [THEN conjunct1, THEN conjunct1]
  note same_length =
    inst [THEN conjunct1, THEN conjunct2, THEN conjunct2, THEN conjunct2, THEN conjunct1]
  note skipped = inst [THEN conjunct2, THEN conjunct1]
  note composed = inst [THEN conjunct2, THEN conjunct2, THEN conjunct1]
  note source = inst [THEN conjunct2, THEN conjunct2, THEN conjunct2]
  have seen: "doc_id (doc (resolve handbook ?r)) \<in> {1, 2}"
    by (simp add: handbook_def indexedDoc_def resolve_def)
  have ds: "map (resolve handbook) ?results = docs handbook"
    by (simp add: resolve_def o_def)
  have firsts:
    "filter (\<lambda>i. \<forall>j<i. doc_id (doc (docs handbook ! j)) \<noteq> doc_id (doc (docs handbook ! i)))
       [0..<length (docs handbook)] = [0, 1]"
    by (simp add: handbook_def indexedDoc_def upt_conv_Cons All_less_Suc2 del: upt_Suc)
  from skipped seen have skip: "collect handbook [?r] {1, 2} [] = []" by simp
  have emitted: "collect handbook ?results {} []
        = [newItem (docs handbook ! 0), newItem (docs handbook ! 1)]"
    unfolding emitted_eq ds firsts by simp
  have "snd (selectResults handbook None) = ?results"
    using source by simp
  with composed same_length emitted have "length (snd (items handbook None)) = 2"
    by simp
  with seen skip emitted show ?thesis by simp
qed

lemma longTitles_lengths: "length aTitle = 67" "length bTitle = 17"
  by (simp_all add: aTitle_def bTitle_def ascii_def)

lemma longTitles_emitted:
  "collect longTitles (map AnIndexedDoc (docs longTitles)) {} []
     = [\<lparr> title = aTitle, url = None, ui_hover_text = None, ai_content = None \<rparr>,
        \<lparr> title = bTitle, url = None, ui_hover_text = None, ai_content = None \<rparr>]"
proof -
  have "aTitle \<noteq> []" "bTitle \<noteq> []" using longTitles_lengths by auto
  then show ?thesis
    by (simp add: longTitles_def indexedDoc_def resolve_def newItem_def orElse_def truthy_def
        content_field_def Let_def)
qed

lemma longTitles_suffix: "longestCommonSuffix [aTitle, bTitle] = ascii '' - Docs''"
  by (simp add: longestCommonSuffix_def suffixLoop.simps charAt_def prepend_def ascii_def
      nth_append aTitle_def bTitle_def)

lemma longTitles_truncated_suffix:
  "longestCommonSuffix [replicate 50 0x61 @ ascii ''...'', bTitle] = []"
  by (simp add: longestCommonSuffix_def suffixLoop.simps charAt_def prepend_def ascii_def
      nth_append bTitle_def)

lemma longTitles_takes:
  "take 60 aTitle = replicate 60 0x61" "take 10 bTitle = replicate 10 0x62"
  "take 50 aTitle = replicate 50 0x61"
  by (simp_all add: aTitle_def bTitle_def)

text \<open>
  Were the titles truncated before the suffix step, the second title of \<open>longTitles\<close>
  would keep its suffix: the first, cut to 50 characters and three dots, no longer
  shares it.
\<close>

lemma longTitles_reversed:
  "map title (trimCommonSuffix (truncateTitles
      (collect longTitles (map AnIndexedDoc (docs longTitles)) {} [])))
     = [replicate 50 0x61 @ ascii ''...'', bTitle]"
proof -
  have "truncateTitles (collect longTitles (map AnIndexedDoc (docs longTitles)) {} [])
     = [\<lparr> title = take 50 aTitle @ ascii ''...'', url = None, ui_hover_text = None,
          ai_content = None \<rparr>,
        \<lparr> title = bTitle, url = None, ui_hover_text = None, ai_content = None \<rparr>]"
    by (simp add: longTitles_emitted truncateTitles_def truncate_eq longTitles_lengths)
  then show ?thesis
    by (simp add: trimCommonSuffix_eq longTitles_truncated_suffix longTitles_takes)
qed

text \<open>
  C4. The title of every returned item is the truncation, to 50 characters, of the
  title the item has after the common-suffix step: a title of more than 50 characters
  becomes its first 50 characters followed by three dots, a title of 50 characters or
  fewer is unchanged; nothing else of the item changes.
\<close>

theorem titles_truncated_after_suffix_trimming:
  "snd (items client q)
     = map (\<lambda>r. r\<lparr>title := (if 50 < length (title r) then take 50 (title r) @ ascii ''...''
                               else title r)\<rparr>)
         (trimCommonSuffix (collect client (snd (selectResults client q)) {} []))
   \<and> truncate t 50 = (if length t \<le> 50 then t else take 50 t @ ascii ''...'')
   \<and> length (take 50 t) \<le> 50"
  by (simp add: items_snd truncateTitles_def truncate_eq)

theorem titles_truncated_after_suffix_trimming_witness:
  "map title (snd (items longTitles None))
     = [replicate 50 0x61 @ ascii ''...'', replicate 10 0x62]
   \<and> map title (trimCommonSuffix (truncateTitles
         (collect longTitles (map AnIndexedDoc (docs longTitles)) {} [])))
       = [replicate 50 0x61 @ ascii ''...'', bTitle]
   \<and> truncate (replicate 60 0x61) 50 = replicate 50 0x61 @ ascii ''...''"
proof -
  note inst = titles_truncated_after_suffix_trimming
    [where client = longTitles and q = None and t = "replicate 60 0x61"]
  have len: "length (ascii '' - Docs'') = 7" by (simp add: ascii_def)
  have "trimCommonSuffix (collect longTitles (snd (selectResults longTitles None)) {} [])
    = [\<lparr> title = replicate 60 0x61, url = None, ui_hover_text = None, ai_content = None \<rparr>,
       \<lparr> title = replicate 10 0x62, url = None, ui_hover_text = None, ai_content = None \<rparr>]"
    by (simp add: selectResults_eq longTitles_emitted trimCommonSuffix_eq longTitles_suffix
        longTitles_lengths len longTitles_takes)
  with inst have "map title (snd (items longTitles None))
     = [replicate 50 0x61 @ ascii ''...'', replicate 10 0x62]"
    by simp
  moreover from inst have "truncate (replicate 60 0x61) 50 = replicate 50 0x61 @ ascii ''...''"
    by simp
  ultimately show ?thesis using longTitles_reversed by simp
qed

text \<open>
  C5. When the query is absent or is empty once trimmed, \<open>items\<close> takes the listing of
  the corpus, in its order, as candidates, and the search is not called; otherwise the
  search is called once, with the trimmed query, and its results are the candidates.
\<close>

theorem query_selects_candidate_source:
  "items client q =
     (case q of
        None \<Rightarrow>
          ([], truncateTitles (trimCommonSuffix
                 (collect client (map AnIndexedDoc (docs client)) {} [])))
      | Some s \<Rightarrow>
          if trim s = []
          then ([], truncateTitles (trimCommonSuffix
                      (collect client (map AnIndexedDoc (docs client)) {} [])))
          else ([trim s], truncateTitles (trimCommonSuffix
                      (collect client (map ASearchResult (search client (trim s))) {} []))))"
  by (simp add: items_def selectResults_eq split: option.splits)

theorem query_selects_candidate_source_witness:
  "fst (items handbook None) = []
   \<and> fst (items handbook (Some (ascii ''  ''))) = []
   \<and> snd (items handbook (Some (ascii ''  ''))) = snd (items handbook None)
   \<and> fst (items handbook (Some (ascii '' two ''))) = [ascii ''two'']
   \<and> map title (snd (items handbook (Some (ascii '' two '')))) = [ascii ''Found'', ascii ''Found'']"
proof -
  have blank: "trim (ascii ''  '') = []"
    by (simp add: trim_def isWhiteSpace_def ascii_def)
  have two: "trim (ascii '' two '') = ascii ''two''"
    by (simp add: trim_def isWhiteSpace_def ascii_def)
  have ne: "ascii ''two'' \<noteq> []" by (simp add: ascii_def)
  have found: "map title (truncateTitles (trimCommonSuffix
        (collect handbook (map ASearchResult (search handbook (ascii ''two''))) {} [])))
      = [ascii ''Found'', ascii ''Found'']"
    by (simp add: handbook_def indexedDoc_def resolve_def newItem_def orElse_def truthy_def
        content_field_def Let_def trimCommonSuffix_eq longestCommonSuffix_def suffixLoop.simps
        charAt_def prepend_def truncateTitles_def truncate_eq ascii_def)
  from query_selects_candidate_source [of handbook None]
    query_selects_candidate_source [of handbook "Some (ascii ''  '')"]
    query_selects_candidate_source [of handbook "Some (ascii '' two '')"]
  show ?thesis
    by (simp add: blank two ne found)
qed

text \<open>
  C6, as stated, fails. A document without a title whose URL is present and is the empty
  string gets the title \<open>Untitled\<close>, where the specification's wording gives the URL,
  the empty string.
\<close>

theorem empty_url_title_is_Untitled:
  "content_field content_title emptyUrlDoc = None
   \<and> doc_url (doc emptyUrlDoc) = Some []
   \<and> claimed_title emptyUrlDoc = []
   \<and> title (newItem emptyUrlDoc) = ascii ''Untitled''
   \<and> title (newItem emptyUrlDoc) \<noteq> claimed_title emptyUrlDoc"
  by (simp add: emptyUrlDoc_def claimed_title_def content_field_def title_newItem truthy_def
      ascii_def)

text \<open>
  C6, amended. The title of an emitted item, before the two later passes, is the
  document's title if that is present and non-empty, otherwise the document's URL if
  that is present and non-empty, otherwise \<open>Untitled\<close>; a document with no title and no
  URL gets \<open>Untitled\<close>. Unless the URL is the empty string this is the title of the
  specification's wording.
\<close>

theorem newItem_title_fallback_chain:
  "title (newItem d) =
     (let fallback = (case doc_url (doc d) of
                        Some u \<Rightarrow> if u \<noteq> [] then u else ascii ''Untitled''
                      | None \<Rightarrow> ascii ''Untitled'')
      in case content_field content_title d of
           Some t \<Rightarrow> if t \<noteq> [] then t else fallback
         | None \<Rightarrow> fallback)
   \<and> (content_field content_title d = None \<and> doc_url (doc d) = None
        \<longrightarrow> title (newItem d) = ascii ''Untitled'')
   \<and> (doc_url (doc d) \<noteq> Some [] \<longrightarrow> title (newItem d) = claimed_title d)"
  by (auto simp: title_newItem truthy_def claimed_title_def Let_def split: option.splits)

theorem newItem_title_fallback_chain_witness:
  "content_field content_title bareDoc = None
   \<and> doc_url (doc bareDoc) = None
   \<and> doc_url (doc bareDoc) \<noteq> Some []
   \<and> title (newItem bareDoc) = ascii ''Untitled''
   \<and> title (newItem bareDoc) = claimed_title bareDoc"
proof -
  have none: "content_field content_title bareDoc = None" "doc_url (doc bareDoc) = None"
    by (simp_all add: bareDoc_def content_field_def)
  with newItem_title_fallback_chain [of bareDoc] show ?thesis by auto
qed

text \<open>
  C7, as stated, fails. A document whose text content is present and is the empty
  string gets no preview, where the specification's wording gives it the empty preview.
\<close>

theorem empty_text_preview_is_absent:
  "content_field textContent emptyTextDoc = Some []
   \<and> claimed_preview emptyTextDoc = Some []
   \<and> ui_hover_text (newItem emptyTextDoc) = None
   \<and> ui_hover_text (newItem emptyTextDoc) \<noteq> claimed_preview emptyTextDoc"
  by (simp add: emptyTextDoc_def indexedDoc_def claimed_preview_def content_field_def
      newItem_def truthy_def)

text \<open>
  C7, amended. When the document's text content is present and non-empty, the preview
  of the emitted item is the first 200 characters of the text, followed by three dots
  exactly when the text is longer than 200 characters; when the text content is absent
  or is the empty string there is no preview. Unless the text is the empty string this
  is the preview of the specification's wording.
\<close>

theorem newItem_preview_of_text:
  "ui_hover_text (newItem d) =
     (case content_field textContent d of
        None \<Rightarrow> None
      | Some t \<Rightarrow>
          if t = [] then None
          else Some (if 200 < length t then take 200 t @ ascii ''...'' else t))
   \<and> (content_field textContent d \<noteq> Some [] \<longrightarrow> ui_hover_text (newItem d) = claimed_preview d)"
  by (auto simp: newItem_def truthy_def truncate_eq claimed_preview_def split: option.splits)

theorem newItem_preview_of_text_witness:
  "content_field textContent (indexedDoc 3 None None (Some (replicate 250 0x61)))
     \<noteq> Some []
   \<and> ui_hover_text (newItem (indexedDoc 3 None None (Some (replicate 250 0x61))))
       = Some (replicate 200 0x61 @ ascii ''...'')
   \<and> ui_hover_text (newItem (indexedDoc 3 None None (Some (ascii ''first''))))
       = Some (ascii ''first'')
   \<and> ui_hover_text (newItem (indexedDoc 3 None None None)) = None"
proof -
  have long: "content_field textContent (indexedDoc 3 None None (Some (replicate 250 0x61)))
      = Some (replicate 250 0x61)"
    and short: "content_field textContent (indexedDoc 3 None None (Some (ascii ''first'')))
      = Some (ascii ''first'')"
    and none: "content_field textContent (indexedDoc 3 None None None) = None"
    by (simp_all add: indexedDoc_def content_field_def)
  have len: "length (ascii ''first'') = 5" "ascii ''first'' \<noteq> []"
    by (simp_all add: ascii_def)
  have ne: "replicate 250 (0x61 :: 16 word) \<noteq> []" by simp
  from newItem_preview_of_text [of "indexedDoc 3 None None (Some (replicate 250 0x61))"]
    newItem_preview_of_text [of "indexedDoc 3 None None (Some (ascii ''first''))"]
    newItem_preview_of_text [of "indexedDoc 3 None None None"]
  show ?thesis
    unfolding long short none by (simp add: len ne)
qed

text \<open>
  C8, as stated, fails. \<open>fetchIndex\<close> has no check of the scheme beyond \<open>file:\<close>: a
  locator with the scheme \<open>data:\<close>, which is neither the local-file scheme nor a network
  scheme, goes to \<open>fetch\<close>, and where \<open>fetch\<close> serves it an index is produced.
\<close>

theorem data_locator_yields_index:
  "newURL dataEnv dataLocator = Inr dataURL
   \<and> protocol dataURL = ascii ''data:''
   \<and> protocol dataURL \<noteq> ascii ''file:''
   \<and> protocol dataURL \<noteq> ascii ''http:''
   \<and> protocol dataURL \<noteq> ascii ''https:''
   \<and> fetchIndex dataEnv dataLocator = Inr 0"
  by (simp add: fetchIndex_def dataEnv_def dataURL_def lift_simps ascii_def)

text \<open>
  C8, amended. The index loader hands every locator whose scheme is not the local-file
  scheme to the network fetch, whatever the scheme. It fails, and produces no index,
  whenever that fetch fails, and whenever the fetch returns a response whose status is
  not a success; in that case the error's message carries the locator and the status
  code. A locator that does not parse makes the loader fail as well.
\<close>

theorem fetchIndex_fails_with_fetch:
  "(\<forall>x. newURL env urlStr = Inl x \<longrightarrow> fetchIndex env urlStr = Inl (Thrown x))
   \<and> (newURL env urlStr = Inr u \<and> protocol u \<noteq> ascii ''file:'' \<longrightarrow>
        fetchIndex env urlStr =
          (case fetch env urlStr of
             Inl x \<Rightarrow> Inl (Thrown x)
           | Inr resp \<Rightarrow>
               if ok resp
               then (case json resp of
                       Inl x \<Rightarrow> Inl (Thrown x)
                     | Inr j \<Rightarrow> (case fromJSON env j of
                                   Inl x \<Rightarrow> Inl (Thrown x)
                                 | Inr c \<Rightarrow> Inr c))
               else Inl (Error (ascii ''Failed to fetch corpus index from '' @ urlStr
                                  @ ascii '' with HTTP status '' @ decimal (status resp)))))
   \<and> (newURL env urlStr = Inr u \<and> protocol u \<noteq> ascii ''file:''
        \<and> fetch env urlStr = Inr resp \<and> \<not> ok resp \<longrightarrow>
        (\<forall>c. fetchIndex env urlStr \<noteq> Inr c))"
  by (auto simp: fetchIndex_def lift_def failedToFetch_def split: sum.splits)

theorem fetchIndex_fails_with_fetch_witness:
  "newURL missingEnv missingLocator
     = Inr \<lparr> protocol = ascii ''https:'', pathname = ascii ''/index.json'' \<rparr>
   \<and> ascii ''https:'' \<noteq> ascii ''file:''
   \<and> fetch missingEnv missingLocator = Inr \<lparr> ok = False, status = 404, json = Inl () \<rparr>
   \<and> fetchIndex missingEnv missingLocator
       = Inl (Error (ascii ''Failed to fetch corpus index from https://example.com/index.json with HTTP status 404''))"
proof -
  have u: "newURL missingEnv missingLocator
     = Inr \<lparr> protocol = ascii ''https:'', pathname = ascii ''/index.json'' \<rparr>"
    by (simp add: missingEnv_def)
  have p: "ascii ''https:'' \<noteq> ascii ''file:''" by (simp add: ascii_def)
  have f: "fetch missingEnv missingLocator = Inr \<lparr> ok = False, status = 404, json = Inl () \<rparr>"
    by (simp add: missingEnv_def)
  have d: "decimal 404 = ascii ''404''"
    by (simp add: decimal.simps ascii_def)
  from fetchIndex_fails_with_fetch
    [where env = missingEnv and urlStr = missingLocator
       and u = "\<lparr> protocol = ascii ''https:'', pathname = ascii ''/index.json'' \<rparr>"]
    u p
  have "fetchIndex missingEnv missingLocator
       = Inl (Error (ascii ''Failed to fetch corpus index from '' @ missingLocator
                       @ ascii '' with HTTP status '' @ decimal 404))"
    by (simp add: f)
  then have "fetchIndex missingEnv missingLocator
       = Inl (Error (ascii ''Failed to fetch corpus index from https://example.com/index.json with HTTP status 404''))"
    by (simp add: d missingLocator_def ascii_def)
  with u p f show ?thesis by simp
qed

text \<open>
  C9. Every item that \<open>items\<close> returns has a title of at least one character: the
  fallback chain never gives the empty string, the suffix step leaves a title alone or
  leaves it at least 10 characters, and truncation does not empty a non-empty title.
\<close>

theorem items_titles_nonempty:
  "(\<forall>r\<in>set (snd (items client q)). 0 < length (title r))
   \<and> title (newItem d) \<noteq> []
   \<and> (\<forall>i<length its. title (trimCommonSuffix its ! i) = title (its ! i)
                        \<or> 10 \<le> length (title (trimCommonSuffix its ! i)))
   \<and> (t \<noteq> [] \<longrightarrow> truncate t n \<noteq> [])"
proof -
  have "\<forall>r\<in>set (snd (items client q)). title r \<noteq> []"
    unfolding items_snd
    by (intro truncateTitles_nonempty trimCommonSuffix_nonempty collect_titles_nonempty)
  then show ?thesis
    by (simp add: title_newItem_nonempty trimCommonSuffix_keeps_ten truncate_nonempty)
qed

theorem items_titles_nonempty_witness:
  "snd (items fooDocs None) ! 0 \<in> set (snd (items fooDocs None))
   \<and> 0 < length (title (snd (items fooDocs None) ! 0))
   \<and> title (newItem bareDoc) \<noteq> []
   \<and> ascii ''One'' \<noteq> []
   \<and> truncate (ascii ''One'') 2 \<noteq> []"
proof -
  have "length (map title (snd (items fooDocs None))) = 2"
    unfolding fooDocs_items_titles by simp
  then have mem: "snd (items fooDocs None) ! 0 \<in> set (snd (items fooDocs None))"
    by (intro nth_mem) simp
  have ne: "ascii ''One'' \<noteq> []" by (simp add: ascii_def)
  from items_titles_nonempty
    [where client = fooDocs and q = None and d = bareDoc and t = "ascii ''One''" and n = 2
       and its = "[]"]
    mem ne
  show ?thesis by blast
qed

text \<open>
  C10. A document whose text content is the empty string gets no preview, as one
  without text content, and the content of its item is the empty string itself; so it
  is for the one item returned for a corpus of that document alone.
\<close>

theorem empty_text_content_not_previewed:
  "content_field textContent d = Some [] \<longrightarrow>
     ui_hover_text (newItem d) = None
     \<and> ui_hover_text (newItem d) = ui_hover_text (newItem (d\<lparr>content := None\<rparr>))
     \<and> ai_content (newItem d) = Some []
     \<and> (docs client = [d] \<longrightarrow>
          map (\<lambda>r. (ui_hover_text r, ai_content r)) (snd (items client None))
            = [(None, Some [])])"
  by (simp add: newItem_def truthy_def content_field_def items_snd selectResults_eq
      resolve_def Let_def trimCommonSuffix_def truncateTitles_def)

theorem empty_text_content_not_previewed_witness:
  "content_field textContent emptyTextDoc = Some []
   \<and> ui_hover_text (newItem emptyTextDoc) = None
   \<and> ai_content (newItem emptyTextDoc) = Some []
   \<and> docs (handbook\<lparr>docs := [emptyTextDoc]\<rparr>) = [emptyTextDoc]
   \<and> map (\<lambda>r. (ui_hover_text r, ai_content r))
        (snd (items (handbook\<lparr>docs := [emptyTextDoc]\<rparr>) None)) = [(None, Some [])]"
proof -
  have e: "content_field textContent emptyTextDoc = Some []"
    by (simp add: emptyTextDoc_def indexedDoc_def content_field_def)
  have d: "docs (handbook\<lparr>docs := [emptyTextDoc]\<rparr>) = [emptyTextDoc]" by simp
  from empty_text_content_not_previewed
    [where d = emptyTextDoc and client = "handbook\<lparr>docs := [emptyTextDoc]\<rparr>"] e d
  show ?thesis by blast
qed

end
